theory Spec2Isabelle
  imports Complex_Main "HOL-Library.Sublist"
begin

section \<open>Adaptive bitrate player: data model\<close>

text \<open>
  The interfaces of \<^verbatim>\<open>src/App.tsx\<close>. A TypeScript \<^verbatim>\<open>number\<close> that holds a measurement
  (bandwidth, latency, packet loss, buffer seconds) is a \<^typ>\<open>real\<close>; a \<^verbatim>\<open>number\<close> that
  is an index or a count (\<^verbatim>\<open>currentQuality\<close>, the loop counters, \<^verbatim>\<open>retries\<close>) is an
  \<^typ>\<open>int\<close>. Rounding of IEEE doubles is not modelled. A string is a list of code units
  below 256.
\<close>

record QualityLevel =
  id_ql :: string
  bandwidth :: real
  resolution :: string
  url :: string
  segments :: "string list"

record NetworkCondition =
  bandwidth_net :: real
  latency :: real
  packetLoss :: real

record BufferHealth =
  currentBuffer :: real
  targetBuffer :: real
  isStarving :: bool

text \<open>What a \<^verbatim>\<open>throw\<close> carries: an \<^verbatim>\<open>Error\<close> with its message, or the
  \<^verbatim>\<open>TypeError\<close> the runtime raises when a property of \<^verbatim>\<open>undefined\<close> is read or a
  non-function is called.\<close>

datatype js_error = Error string | TypeError string

text \<open>A division of two finite numbers. JavaScript does not fail on a zero divisor: it
  answers an infinity or \<^verbatim>\<open>NaN\<close>, and every comparison with \<^verbatim>\<open>NaN\<close> is false. A real
  has no sign at zero, so the divisor \<^verbatim>\<open>-0\<close> of a double, which flips the infinity, is
  not modelled.\<close>

datatype jsnum = Finite real | PosInfinity | NegInfinity | NaN

definition js_div :: "real \<Rightarrow> real \<Rightarrow> jsnum" where
  "js_div a b =
     (if b \<noteq> 0 then Finite (a / b)
      else if a > 0 then PosInfinity
      else if a < 0 then NegInfinity
      else NaN)"

fun js_gt :: "jsnum \<Rightarrow> real \<Rightarrow> bool" where
  "js_gt (Finite x) y = (x > y)"
| "js_gt PosInfinity y = True"
| "js_gt NegInfinity y = False"
| "js_gt NaN y = False"

text \<open>\<^verbatim>\<open>xs[i]\<close>: \<^verbatim>\<open>undefined\<close> (here \<open>None\<close>) outside the array.\<close>

definition js_index :: "'a list \<Rightarrow> int \<Rightarrow> 'a option" where
  "js_index xs i = (if 0 \<le> i \<and> i < int (length xs) then Some (xs ! nat i) else None)"

section \<open>Quality selection\<close>

text \<open>
  The downward scan of \<^verbatim>\<open>selectOptimalQuality\<close>:
  \<^verbatim>\<open>for (let i = qualityLevels.length - 1; i >= 0; i--)\<close>. Reading
  \<^verbatim>\<open>qualityLevels[i].bandwidth\<close> outside the array throws a \<^verbatim>\<open>TypeError\<close>. The value
  after the loop is the fallback \<^verbatim>\<open>return 0\<close>. The arguments are the ladder, the available
  bandwidth, the buffer ratio, the index compared against and the loop counter.
\<close>

function selectOptimalQuality_loop ::
  "QualityLevel list \<Rightarrow> real \<Rightarrow> jsnum \<Rightarrow> int \<Rightarrow> int \<Rightarrow> js_error + int" where
  "selectOptimalQuality_loop qualityLevels availableBandwidth bufferRatio cur i =
     (if i \<ge> 0 then
        (case js_index qualityLevels i of
           None \<Rightarrow> Inl (TypeError ''Cannot read properties of undefined'')
         | Some q \<Rightarrow>
             (let requiredBandwidth = bandwidth q;
                  canSustain = (availableBandwidth > requiredBandwidth * 0.8);
                  canUpgrade = (availableBandwidth > requiredBandwidth * 1.4)
              in if i = cur \<and> canSustain then Inr i
                 else if i > cur \<and> canUpgrade \<and> js_gt bufferRatio 1.2 then Inr i
                 else if i < cur \<and> canSustain then Inr i
                 else selectOptimalQuality_loop qualityLevels availableBandwidth
                        bufferRatio cur (i - 1)))
      else Inr 0)"
  by pat_completeness auto
termination
  by (relation "measure (\<lambda>(qs, a, r, c, i). nat (i + 1))") auto

declare selectOptimalQuality_loop.simps [simp del]

text \<open>\<^verbatim>\<open>selectOptimalQuality\<close> of \<^verbatim>\<open>src/App.tsx\<close>, lines 191 to 233.\<close>

definition selectOptimalQuality ::
  "QualityLevel list \<Rightarrow> NetworkCondition \<Rightarrow> BufferHealth \<Rightarrow> int \<Rightarrow> js_error + int" where
  "selectOptimalQuality qualityLevels networkCondition bufferHealth currentQuality =
     (if length qualityLevels = 0 then Inr 0
      else
        (let safeCurrentQuality = max 0 (min currentQuality (int (length qualityLevels) - 1));
             availableBandwidth = bandwidth_net networkCondition * (1 - packetLoss networkCondition);
             bufferRatio = js_div (currentBuffer bufferHealth) (targetBuffer bufferHealth)
         in if isStarving bufferHealth \<and> safeCurrentQuality > 0
            then Inr (max 0 (safeCurrentQuality - 1))
            else selectOptimalQuality_loop qualityLevels availableBandwidth bufferRatio
                   safeCurrentQuality (int (length qualityLevels) - 1)))"

text \<open>
  The second definition of \<^verbatim>\<open>selectOptimalQuality\<close> in the repository
  (\<^verbatim>\<open>src/unnamed/part_000\<close>, lines 180 to 217): the same scan, with neither the
  empty-ladder return nor the clamp of \<^verbatim>\<open>currentQuality\<close>.
\<close>

definition selectOptimalQuality_part_000 ::
  "QualityLevel list \<Rightarrow> NetworkCondition \<Rightarrow> BufferHealth \<Rightarrow> int \<Rightarrow> js_error + int" where
  "selectOptimalQuality_part_000 qualityLevels networkCondition bufferHealth currentQuality =
     (let availableBandwidth = bandwidth_net networkCondition * (1 - packetLoss networkCondition);
          bufferRatio = js_div (currentBuffer bufferHealth) (targetBuffer bufferHealth)
      in if isStarving bufferHealth \<and> currentQuality > 0
         then Inr (max 0 (currentQuality - 1))
         else selectOptimalQuality_loop qualityLevels availableBandwidth bufferRatio
                currentQuality (int (length qualityLevels) - 1))"

text \<open>The ladder and the two situations of \<^verbatim>\<open>testQualitySelection\<close>.\<close>

definition mockQualities :: "QualityLevel list" where
  "mockQualities =
     [\<lparr>id_ql = ''quality_800000_360p'', bandwidth = 800000, resolution = ''360p'',
       url = [], segments = []\<rparr>,
      \<lparr>id_ql = ''quality_1400000_480p'', bandwidth = 1400000, resolution = ''480p'',
       url = [], segments = []\<rparr>,
      \<lparr>id_ql = ''quality_2800000_720p'', bandwidth = 2800000, resolution = ''720p'',
       url = [], segments = []\<rparr>]"

definition goodNetwork :: NetworkCondition where
  "goodNetwork = \<lparr>bandwidth_net = 4000000, latency = 20, packetLoss = 0.01\<rparr>"

definition healthyBuffer :: BufferHealth where
  "healthyBuffer = \<lparr>currentBuffer = 40, targetBuffer = 30, isStarving = False\<rparr>"

definition poorNetwork :: NetworkCondition where
  "poorNetwork = \<lparr>bandwidth_net = 500000, latency = 200, packetLoss = 0.1\<rparr>"

definition starvingBuffer :: BufferHealth where
  "starvingBuffer = \<lparr>currentBuffer = 2, targetBuffer = 30, isStarving = True\<rparr>"

section \<open>Segment loading\<close>

text \<open>
  \<^verbatim>\<open>loadSegment\<close> draws from \<^verbatim>\<open>Math.random()\<close>, waits through \<^verbatim>\<open>setTimeout\<close> and writes
  to the console. The random source is injected as the sequence of the values it returns,
  and the world records how many values were drawn and what was done, in order: the
  simulated network delay of an attempt (line 249), the warning of a retry (line 272) and
  the backoff wait (line 275).
\<close>

datatype event = Delay real | ConsoleWarn string | Backoff real

record world =
  draws :: nat
  trace :: "event list"

record Blob =
  blobParts :: "string list"
  type_blob :: string

record LoadResult =
  success :: bool
  data :: "Blob option"
  error_lr :: "string option"

text \<open>A number inside a template literal: the decimal digits, with a minus sign below
  zero.\<close>

function string_of_nat :: "nat \<Rightarrow> string" where
  "string_of_nat n =
     (if n < 10 then [''0123456789'' ! n]
      else string_of_nat (n div 10) @ [''0123456789'' ! (n mod 10)])"
  by pat_completeness auto
termination
  by (relation "measure (\<lambda>n. n)") auto

declare string_of_nat.simps [simp del]

definition string_of_int :: "int \<Rightarrow> string" where
  "string_of_int i = (if i < 0 then CHR ''-'' # string_of_nat (nat (- i)) else string_of_nat (nat i))"

text \<open>The \<^verbatim>\<open>try\<close> block of one attempt: \<open>Inl\<close> is the thrown error, \<open>Inr\<close> the value
  returned out of the function.\<close>

definition loadSegment_try ::
  "(nat \<Rightarrow> real) \<Rightarrow> string \<Rightarrow> NetworkCondition \<Rightarrow> world \<Rightarrow> (js_error + LoadResult) \<times> world" where
  "loadSegment_try Math_random segmentUrl networkCondition w =
     (let w1 = w\<lparr>trace := trace w @ [Delay (latency networkCondition + Math_random (draws w) * 100)],
                 draws := draws w + 1\<rparr>;
          r = Math_random (draws w1);
          w2 = w1\<lparr>draws := draws w1 + 1\<rparr>
      in if r < 0.05 then (Inl (Error (''Network error loading '' @ segmentUrl)), w2)
         else (Inr \<lparr>success = True,
                     data = Some \<lparr>blobParts = [''video_segment_'' @ segmentUrl],
                                  type_blob = ''video/mp2t''\<rparr>,
                     error_lr = None\<rparr>, w2))"

text \<open>Every value of \<^typ>\<open>js_error\<close> is an instance of \<^verbatim>\<open>Error\<close>, so
  \<^verbatim>\<open>errorMessage\<close> is its message.\<close>

fun message_of :: "js_error \<Rightarrow> string" where
  "message_of (Error m) = m"
| "message_of (TypeError m) = m"

text \<open>The retry loop \<^verbatim>\<open>for (let attempt = 0; attempt < retries; attempt++)\<close>, with the
  \<^verbatim>\<open>catch\<close> block, and the \<^verbatim>\<open>return\<close> after the loop.\<close>

function loadSegment_loop ::
  "(nat \<Rightarrow> real) \<Rightarrow> string \<Rightarrow> NetworkCondition \<Rightarrow> int \<Rightarrow> int \<Rightarrow> world \<Rightarrow> LoadResult \<times> world" where
  "loadSegment_loop Math_random segmentUrl networkCondition retries attempt w =
     (if attempt < retries then
        (case loadSegment_try Math_random segmentUrl networkCondition w of
           (Inr result, w') \<Rightarrow> (result, w')
         | (Inl e, w') \<Rightarrow>
             (let errorMessage = message_of e
              in if attempt = retries - 1 then
                   (\<lparr>success = False, data = None,
                     error_lr = Some (''Failed to load '' @ segmentUrl @ '' after ''
                                      @ string_of_int retries @ '' attempts: '' @ errorMessage)\<rparr>, w')
                 else loadSegment_loop Math_random segmentUrl networkCondition retries (attempt + 1)
                        (w'\<lparr>trace := trace w' @
                              [ConsoleWarn (''Segment load attempt '' @ string_of_int (attempt + 1)
                                            @ '' failed: '' @ errorMessage @ ''. Retrying...''),
                               Backoff (2 ^ nat attempt * 1000)]\<rparr>)))
      else (\<lparr>success = False, data = None,
              error_lr = Some ''Unexpected error in retry loop''\<rparr>, w))"
  by pat_completeness auto
termination
  by (relation "measure (\<lambda>(r, u, n, retries, attempt, w). nat (retries - attempt))") auto

declare loadSegment_loop.simps [simp del]

definition loadSegment ::
  "(nat \<Rightarrow> real) \<Rightarrow> string \<Rightarrow> NetworkCondition \<Rightarrow> int \<Rightarrow> world \<Rightarrow> LoadResult \<times> world" where
  "loadSegment Math_random segmentUrl networkCondition retries w =
     loadSegment_loop Math_random segmentUrl networkCondition retries 0 w"

text \<open>What the trace says: the attempts made, one network delay each, and the backoff
  waits in milliseconds.\<close>

fun attempts_made :: "event list \<Rightarrow> nat" where
  "attempts_made [] = 0"
| "attempts_made (Delay d # es) = Suc (attempts_made es)"
| "attempts_made (e # es) = attempts_made es"

fun backoffs :: "event list \<Rightarrow> real list" where
  "backoffs [] = []"
| "backoffs (Backoff ms # es) = ms # backoffs es"
| "backoffs (e # es) = backoffs es"

definition initial_world :: world where
  "initial_world = \<lparr>draws = 0, trace = []\<rparr>"

section \<open>Event log\<close>

datatype LogType = info | warning | error

record LogEntry =
  id_log :: string
  message :: string
  timestamp :: string
  type_log :: LogType

record BufferEvent =
  id_ev :: string
  timestamp_ev :: string
  type_ev :: LogType
  message_ev :: string

record PlayerMetrics =
  currentQuality :: int
  avgBandwidth :: real
  droppedFrames :: int
  switchCount :: int
  bufferEvents :: "BufferEvent list"

text \<open>The two React states \<^verbatim>\<open>logEvent\<close> updates, and the console it writes to.\<close>

record player =
  logs :: "LogEntry list"
  metrics :: PlayerMetrics
  console :: "string list"

text \<open>\<^verbatim>\<open>xs.slice(-n)\<close>: the last \<open>n\<close> elements, all of them when there are fewer.\<close>

definition slice_last :: "nat \<Rightarrow> 'a list \<Rightarrow> 'a list" where
  "slice_last n xs = drop (length xs - n) xs"

fun toUpperCase_type :: "LogType \<Rightarrow> string" where
  "toUpperCase_type info = ''INFO''"
| "toUpperCase_type warning = ''WARNING''"
| "toUpperCase_type error = ''ERROR''"

text \<open>One call of \<^verbatim>\<open>logEvent\<close>. What the call takes from its environment is an argument:
  the ISO timestamp and the two eight-character slices of fresh UUIDs.\<close>

record log_call =
  call_message :: string
  call_type :: LogType
  call_timestamp :: string
  call_uuid1 :: string
  call_uuid2 :: string

definition logEntry_of :: "log_call \<Rightarrow> LogEntry" where
  "logEntry_of c =
     \<lparr>id_log = call_timestamp c @ ''_'' @ call_uuid1 c, message = call_message c,
      timestamp = call_timestamp c, type_log = call_type c\<rparr>"

definition bufferEvent_of :: "log_call \<Rightarrow> BufferEvent" where
  "bufferEvent_of c =
     \<lparr>id_ev = call_timestamp c @ ''_'' @ call_uuid2 c, timestamp_ev = call_timestamp c,
      type_ev = call_type c, message_ev = call_message c\<rparr>"

definition logEvent :: "player \<Rightarrow> log_call \<Rightarrow> player" where
  "logEvent p c =
     (let p1 = p\<lparr>console := console p @
                    [''['' @ call_timestamp c @ ''] '' @ toUpperCase_type (call_type c)
                     @ '': '' @ call_message c]\<rparr>;
          p2 = p1\<lparr>logs := slice_last 49 (logs p1) @ [logEntry_of c]\<rparr>
      in if call_type c = warning \<or> call_type c = error
         then p2\<lparr>metrics := (metrics p2)\<lparr>bufferEvents :=
                   slice_last 19 (bufferEvents (metrics p2)) @ [bufferEvent_of c]\<rparr>\<rparr>
         else p2)"

text \<open>A run of calls, from the state the component starts in.\<close>

definition logEvents :: "player \<Rightarrow> log_call list \<Rightarrow> player" where
  "logEvents p cs = foldl logEvent p cs"

definition initial_player :: player where
  "initial_player =
     \<lparr>logs = [],
      metrics = \<lparr>currentQuality = 0, avgBandwidth = 0, droppedFrames = 0, switchCount = 0,
                 bufferEvents = []\<rparr>,
      console = []\<rparr>"

definition is_buffer_event :: "log_call \<Rightarrow> bool" where
  "is_buffer_event c = (call_type c = warning \<or> call_type c = error)"

section \<open>Manifest parsing\<close>

text \<open>A multi-line template literal, given line by line: the lines joined by the
  newline character.\<close>

fun template :: "string list \<Rightarrow> string" where
  "template [] = []"
| "template [l] = l"
| "template (l # ls) = l @ CHR 0x0A # template ls"

definition MOCK_HLS_MANIFEST :: string where
  "MOCK_HLS_MANIFEST =
     template [''#EXTM3U'', ''#EXT-X-VERSION:3'',
       ''#EXT-X-STREAM-INF:BANDWIDTH=800000,RESOLUTION=640x360'', ''stream_360p.m3u8'',
       ''#EXT-X-STREAM-INF:BANDWIDTH=1400000,RESOLUTION=854x480'', ''stream_480p.m3u8'',
       ''#EXT-X-STREAM-INF:BANDWIDTH=2800000,RESOLUTION=1280x720'', ''stream_720p.m3u8'',
       ''#EXT-X-STREAM-INF:BANDWIDTH=5000000,RESOLUTION=1920x1080'', ''stream_1080p.m3u8'']"

definition MOCK_SEGMENT_PLAYLISTS :: "(string \<times> string) list" where
  "MOCK_SEGMENT_PLAYLISTS =
     [(''stream_360p.m3u8'',
       template [''#EXTM3U'', ''#EXT-X-VERSION:3'', ''#EXT-X-TARGETDURATION:10'',
         ''#EXTINF:10.0,'', ''segment_360p_001.ts'',
         ''#EXTINF:10.0,'', ''segment_360p_002.ts'',
         ''#EXTINF:10.0,'', ''segment_360p_003.ts'',
         ''#EXT-X-ENDLIST'']),
      (''stream_480p.m3u8'',
       template [''#EXTM3U'', ''#EXT-X-VERSION:3'', ''#EXT-X-TARGETDURATION:10'',
         ''#EXTINF:10.0,'', ''segment_480p_001.ts'',
         ''#EXTINF:10.0,'', ''segment_480p_002.ts'',
         ''#EXTINF:10.0,'', ''segment_480p_003.ts'',
         ''#EXT-X-ENDLIST'']),
      (''stream_720p.m3u8'',
       template [''#EXTM3U'', ''#EXT-X-VERSION:3'', ''#EXT-X-TARGETDURATION:10'',
         ''#EXTINF:10.0,'', ''segment_720p_001.ts'',
         ''#EXTINF:10.0,'', ''segment_720p_002.ts'',
         ''#EXTINF:10.0,'', ''segment_720p_003.ts'',
         ''#EXT-X-ENDLIST'']),
      (''stream_1080p.m3u8'',
       template [''#EXTM3U'', ''#EXT-X-VERSION:3'', ''#EXT-X-TARGETDURATION:10'',
         ''#EXTINF:10.0,'', ''segment_1080p_001.ts'',
         ''#EXTINF:10.0,'', ''segment_1080p_002.ts'',
         ''#EXTINF:10.0,'', ''segment_1080p_003.ts'',
         ''#EXT-X-ENDLIST''])]"

text \<open>\<^verbatim>\<open>s.split('\n')\<close>: the pieces between the separators, one more than there are
  separators.\<close>

fun split_js :: "char \<Rightarrow> string \<Rightarrow> string list" where
  "split_js d [] = [[]]"
| "split_js d (c # cs) =
     (if c = d then [] # split_js d cs
      else (case split_js d cs of
              [] \<Rightarrow> [[c]]
            | l # ls \<Rightarrow> (c # l) # ls))"

text \<open>\<^verbatim>\<open>s.trim()\<close> removes white space at both ends; among the code units below 256 the
  white space and line terminators are tab, line feed, vertical tab, form feed, carriage
  return, space and the no-break space.\<close>

definition js_whitespace :: "char \<Rightarrow> bool" where
  "js_whitespace c =
     (c \<in> set [CHR 0x09, CHR 0x0A, CHR 0x0B, CHR 0x0C, CHR 0x0D, CHR 0x20, CHR 0xA0])"

definition trim :: "string \<Rightarrow> string" where
  "trim s = rev (dropWhile js_whitespace (rev (dropWhile js_whitespace s)))"

text \<open>\<^verbatim>\<open>content.split('\n').filter(line => line.trim())\<close>: the empty string is the only
  falsy string.\<close>

definition nonblank_lines :: "string \<Rightarrow> string list" where
  "nonblank_lines content = filter (\<lambda>line. trim line \<noteq> []) (split_js (CHR 0x0A) content)"

definition startsWith :: "string \<Rightarrow> string \<Rightarrow> bool" where
  "startsWith s p = prefix p s"

text \<open>\<^verbatim>\<open>\d\<close> without the unicode flag: the ten ASCII digits.\<close>

definition is_digit :: "char \<Rightarrow> bool" where
  "is_digit c = (c \<in> set ''0123456789'')"

text \<open>
  \<^verbatim>\<open>/BANDWIDTH=(\d+)/.exec(s)\<close>: the leftmost position where the literal is followed by a
  digit; the group is the longest run of digits there. \<open>None\<close> is \<^verbatim>\<open>null\<close>, \<open>Some\<close>
  carries group 1, the only part of the match the caller reads.
\<close>

fun bandwidthRegex_exec :: "string \<Rightarrow> string option" where
  "bandwidthRegex_exec [] = None"
| "bandwidthRegex_exec (c # cs) =
     (if prefix ''BANDWIDTH='' (c # cs) \<and> takeWhile is_digit (drop 10 (c # cs)) \<noteq> []
      then Some (takeWhile is_digit (drop 10 (c # cs)))
      else bandwidthRegex_exec cs)"

text \<open>
  \<^verbatim>\<open>/RESOLUTION=(\d+x\d+)/.exec(s)\<close>: after the literal, the longest run of digits, an
  \<^verbatim>\<open>x\<close>, and the longest run of digits. Giving back digits of the first run cannot help
  the match, since the next character must be \<^verbatim>\<open>x\<close>.
\<close>

fun resolutionRegex_exec :: "string \<Rightarrow> string option" where
  "resolutionRegex_exec [] = None"
| "resolutionRegex_exec (c # cs) =
     (if prefix ''RESOLUTION='' (c # cs)
         \<and> takeWhile is_digit (drop 11 (c # cs)) \<noteq> []
         \<and> prefix ''x'' (dropWhile is_digit (drop 11 (c # cs)))
         \<and> takeWhile is_digit (drop 1 (dropWhile is_digit (drop 11 (c # cs)))) \<noteq> []
      then Some (takeWhile is_digit (drop 11 (c # cs)) @ ''x''
                 @ takeWhile is_digit (drop 1 (dropWhile is_digit (drop 11 (c # cs)))))
      else resolutionRegex_exec cs)"

text \<open>\<^verbatim>\<open>parseInt\<close> on a run of digits: its decimal value. The value is kept exact, where a
  double rounds above \<open>2 ^ 53\<close>.\<close>

definition digit_value :: "char \<Rightarrow> nat" where
  "digit_value c = of_char c - 48"

definition parseInt :: "string \<Rightarrow> int" where
  "parseInt ds = foldl (\<lambda>n c. 10 * n + int (digit_value c)) 0 ds"

text \<open>The loop of \<^verbatim>\<open>parseSegmentPlaylist\<close>.\<close>

function parseSegmentPlaylist_loop :: "string list \<Rightarrow> nat \<Rightarrow> string list \<Rightarrow> string list" where
  "parseSegmentPlaylist_loop lines i segs =
     (if i < length lines then
        parseSegmentPlaylist_loop lines (i + 1)
          (if startsWith (lines ! i) ''#EXTINF:'' \<and> i + 1 < length lines
           then segs @ [lines ! (i + 1)] else segs)
      else segs)"
  by pat_completeness auto
termination
  by (relation "measure (\<lambda>(lines, i, segs). length lines - i)") auto

declare parseSegmentPlaylist_loop.simps [simp del]

text \<open>
  \<^verbatim>\<open>MOCK_SEGMENT_PLAYLISTS[playlistUrl]\<close> finds the four own keys and, through the
  prototype chain, the properties of \<^verbatim>\<open>Object.prototype\<close>. Those are truthy and have no
  \<^verbatim>\<open>split\<close> method, so the call throws a \<^verbatim>\<open>TypeError\<close>; any other key gives
  \<^verbatim>\<open>undefined\<close> and the "Playlist not found" error.
\<close>

definition Object_prototype_names :: "string list" where
  "Object_prototype_names =
     [''constructor'', ''__defineGetter__'', ''__defineSetter__'', ''hasOwnProperty'',
      ''__lookupGetter__'', ''__lookupSetter__'', ''isPrototypeOf'', ''propertyIsEnumerable'',
      ''toString'', ''valueOf'', ''__proto__'', ''toLocaleString'']"

definition parseSegmentPlaylist :: "string \<Rightarrow> js_error + string list" where
  "parseSegmentPlaylist playlistUrl =
     (case map_of MOCK_SEGMENT_PLAYLISTS playlistUrl of
        Some content \<Rightarrow> Inr (parseSegmentPlaylist_loop (nonblank_lines content) 0 [])
      | None \<Rightarrow>
          if playlistUrl \<in> set Object_prototype_names
          then Inl (TypeError ''content.split is not a function'')
          else Inl (Error (''Playlist not found: '' @ playlistUrl)))"

text \<open>
  The body of one iteration of the loop of \<^verbatim>\<open>parseHLSManifest\<close>: \<open>Inr None\<close> when
  nothing is pushed, \<open>Inr (Some q)\<close> when \<open>q\<close> is pushed, \<open>Inl\<close> when
  \<^verbatim>\<open>parseSegmentPlaylist\<close> throws.
\<close>

definition parseHLSManifest_step :: "string list \<Rightarrow> nat \<Rightarrow> js_error + QualityLevel option" where
  "parseHLSManifest_step lines i =
     (if startsWith (lines ! i) ''#EXT-X-STREAM-INF:'' then
        (case (bandwidthRegex_exec (lines ! i), resolutionRegex_exec (lines ! i)) of
           (Some bandwidthMatch, Some resolutionMatch) \<Rightarrow>
             if i + 1 < length lines then
               (let playlistUrl = lines ! (i + 1)
                in case parseSegmentPlaylist playlistUrl of
                     Inl e \<Rightarrow> Inl e
                   | Inr segs \<Rightarrow>
                       Inr (Some \<lparr>id_ql = ''quality_'' @ bandwidthMatch @ ''_'' @ resolutionMatch,
                                  bandwidth = real_of_int (parseInt bandwidthMatch),
                                  resolution = resolutionMatch,
                                  url = playlistUrl,
                                  segments = segs\<rparr>))
             else Inr None
         | _ \<Rightarrow> Inr None)
      else Inr None)"

function parseHLSManifest_loop ::
  "string list \<Rightarrow> nat \<Rightarrow> QualityLevel list \<Rightarrow> js_error + QualityLevel list" where
  "parseHLSManifest_loop lines i qualityLevels =
     (if i < length lines then
        (case parseHLSManifest_step lines i of
           Inl e \<Rightarrow> Inl e
         | Inr None \<Rightarrow> parseHLSManifest_loop lines (i + 1) qualityLevels
         | Inr (Some q) \<Rightarrow> parseHLSManifest_loop lines (i + 1) (qualityLevels @ [q]))
      else Inr qualityLevels)"
  by pat_completeness auto
termination
  by (relation "measure (\<lambda>(lines, i, qualityLevels). length lines - i)") auto

declare parseHLSManifest_loop.simps [simp del]

text \<open>
  \<^verbatim>\<open>parseHLSManifest\<close>: \<open>Inl\<close> is the rejected promise. The comparator
  \<^verbatim>\<open>a.bandwidth - b.bandwidth\<close> is a consistent order on finite numbers, for which
  \<^verbatim>\<open>Array.prototype.sort\<close> is specified to give the elements in ascending order, equal
  ones in their original order: the stable \<^const>\<open>sort_key\<close>.
\<close>

definition parseHLSManifest :: "string \<Rightarrow> js_error + QualityLevel list" where
  "parseHLSManifest manifestContent =
     (case parseHLSManifest_loop (nonblank_lines manifestContent) 0 [] of
        Inl e \<Rightarrow> Inl e
      | Inr qualityLevels \<Rightarrow> Inr (sort_key bandwidth qualityLevels))"

text \<open>The condition under which an iteration reaches \<^verbatim>\<open>parseSegmentPlaylist\<close>: a
  stream-info line with both attributes and a line after it.\<close>

definition valid_entry :: "string list \<Rightarrow> nat \<Rightarrow> bool" where
  "valid_entry lines i =
     (startsWith (lines ! i) ''#EXT-X-STREAM-INF:''
      \<and> bandwidthRegex_exec (lines ! i) \<noteq> None
      \<and> resolutionRegex_exec (lines ! i) \<noteq> None
      \<and> i + 1 < length lines)"

text \<open>The level an iteration pushes for a valid entry at line \<open>i\<close>: the object literal
  of \<^verbatim>\<open>qualityLevels.push\<close>, with the two groups, the next line and its segments.\<close>

definition quality_at :: "string list \<Rightarrow> nat \<Rightarrow> QualityLevel" where
  "quality_at lines i =
     \<lparr>id_ql = ''quality_'' @ the (bandwidthRegex_exec (lines ! i)) @ ''_''
              @ the (resolutionRegex_exec (lines ! i)),
      bandwidth = real_of_int (parseInt (the (bandwidthRegex_exec (lines ! i)))),
      resolution = the (resolutionRegex_exec (lines ! i)),
      url = lines ! (i + 1),
      segments = (case parseSegmentPlaylist (lines ! (i + 1)) of
                    Inl e \<Rightarrow> []
                  | Inr segs \<Rightarrow> segs)\<rparr>"

section \<open>Properties of the quality selection\<close>

lemma js_index_in_range:
  "0 \<le> i \<Longrightarrow> i < int (length xs) \<Longrightarrow> js_index xs i = Some (xs ! nat i)"
  by (simp add: js_index_def)

text \<open>The scan started inside the ladder never reads outside it and answers an index
  between 0 and its starting point.\<close>

lemma selectOptimalQuality_loop_range:
  "i < int (length qs) \<Longrightarrow>
   \<exists>r. selectOptimalQuality_loop qs a b cur i = Inr r \<and> 0 \<le> r \<and> r \<le> max 0 i"
proof (induction qs a b cur i rule: selectOptimalQuality_loop.induct)
  case (1 qs a b cur i)
  show ?case
  proof (cases "i \<ge> 0")
    case False
    then show ?thesis
      by (simp add: selectOptimalQuality_loop.simps [of qs a b cur i])
  next
    case True
    have idx: "js_index qs i = Some (qs ! nat i)"
      using True "1.prems" by (rule js_index_in_range)
    let ?q = "qs ! nat i"
    let ?stop = "(i = cur \<and> a > bandwidth ?q * 0.8)
                 \<or> (i > cur \<and> a > bandwidth ?q * 1.4 \<and> js_gt b 1.2)
                 \<or> (i < cur \<and> a > bandwidth ?q * 0.8)"
    show ?thesis
    proof (cases ?stop)
      case stop: True
      then have "selectOptimalQuality_loop qs a b cur i = Inr i"
        using True idx
        by (subst selectOptimalQuality_loop.simps) (auto simp: Let_def)
      with True show ?thesis by simp
    next
      case go: False
      then have step: "selectOptimalQuality_loop qs a b cur i
                     = selectOptimalQuality_loop qs a b cur (i - 1)"
        using True idx
        by (subst selectOptimalQuality_loop.simps) (auto simp: Let_def)
      have "i - 1 < int (length qs)" using "1.prems" by simp
      with "1.IH" [OF True idx refl refl refl] go
      obtain r where "selectOptimalQuality_loop qs a b cur (i - 1) = Inr r"
        and "0 \<le> r" and "r \<le> max 0 (i - 1)"
        by auto
      with step True show ?thesis by auto
    qed
  qed
qed

text \<open>
  C1. With the ladder of bandwidths 800000, 1400000 and 2800000, a network of bandwidth
  4000000 and packet loss 0.01, a buffer of 40 seconds against a target of 30 that is not
  starving, and current quality 0, the selection returns 2: the available bandwidth
  exceeds 1.4 times 2800000 and the buffer ratio exceeds 1.2, so the upgrade branch fires
  at the first step of the downward scan.
\<close>

theorem C1_upgrade_to_highest:
  assumes "map bandwidth qs = [800000, 1400000, 2800000]"
    and "bandwidth_net nc = 4000000" and "packetLoss nc = 0.01"
    and "currentBuffer bh = 40" and "targetBuffer bh = 30" and "\<not> isStarving bh"
  shows "selectOptimalQuality qs nc bh 0 = Inr 2
         \<and> bandwidth_net nc * (1 - packetLoss nc) > bandwidth (qs ! 2) * 1.4
         \<and> js_gt (js_div (currentBuffer bh) (targetBuffer bh)) 1.2"
proof -
  from assms(1) have len: "length qs = 3"
    by (metis length_map length_Cons list.size(3) numeral_3_eq_3)
  from assms(1) have "map bandwidth qs ! 2 = 2800000" by simp
  with len have b2: "bandwidth (qs ! 2) = 2800000" by simp
  from len have idx: "js_index qs 2 = Some (qs ! 2)"
    by (simp add: js_index_def)
  have avail: "bandwidth_net nc * (1 - packetLoss nc) = 3960000"
    by (simp add: assms(2,3))
  have ratio: "js_div (currentBuffer bh) (targetBuffer bh) = Finite (4 / 3)"
    by (simp add: assms(4,5) js_div_def)
  have scan: "selectOptimalQuality_loop qs 3960000 (Finite (4 / 3)) 0 2 = Inr 2"
    using idx b2
    by (subst selectOptimalQuality_loop.simps) simp
  have "selectOptimalQuality qs nc bh 0 = Inr 2"
    unfolding selectOptimalQuality_def Let_def avail ratio
    using assms(6) len scan by simp
  then show ?thesis
    by (simp add: avail ratio b2)
qed

theorem C1_upgrade_to_highest_witness:
  "selectOptimalQuality mockQualities goodNetwork healthyBuffer 0 = Inr 2"
  using C1_upgrade_to_highest [of mockQualities goodNetwork healthyBuffer]
  by (simp add: mockQualities_def goodNetwork_def healthyBuffer_def)

lemma selectOptimalQuality_unfold:
  assumes "qs \<noteq> []" and "safe = max 0 (min cq (int (length qs) - 1))"
  shows "selectOptimalQuality qs nc bh cq =
           (if isStarving bh \<and> safe > 0 then Inr (max 0 (safe - 1))
            else selectOptimalQuality_loop qs (bandwidth_net nc * (1 - packetLoss nc))
                   (js_div (currentBuffer bh) (targetBuffer bh)) safe (int (length qs) - 1))"
  unfolding selectOptimalQuality_def Let_def assms(2)
  using assms(1) by (simp only: length_0_conv if_False)

text \<open>
  C2. For a non-empty ladder and a starving buffer, when the clamped current index is
  above 0 the selection returns exactly that index minus 1, whatever the network: one step
  down, before any other rule is looked at.
\<close>

theorem C2_emergency_single_step:
  assumes "qs \<noteq> []" and "isStarving bh"
    and "max 0 (min cq (int (length qs) - 1)) > 0"
  shows "selectOptimalQuality qs nc bh cq = Inr (max 0 (min cq (int (length qs) - 1)) - 1)"
proof -
  define safe where "safe = max 0 (min cq (int (length qs) - 1))"
  from assms(3) have pos: "safe > 0" by (simp only: safe_def)
  have "selectOptimalQuality qs nc bh cq = Inr (max 0 (safe - 1))"
    using selectOptimalQuality_unfold [OF assms(1) safe_def] assms(2) pos by simp
  also from pos have "max 0 (safe - 1) = safe - 1" by simp
  finally show ?thesis by (simp only: safe_def)
qed

theorem C2_emergency_single_step_witness:
  "mockQualities \<noteq> [] \<and> isStarving starvingBuffer
   \<and> max 0 (min 2 (int (length mockQualities) - 1)) > 0
   \<and> selectOptimalQuality mockQualities poorNetwork starvingBuffer 2 = Inr 1"
  using C2_emergency_single_step [of mockQualities starvingBuffer 2 poorNetwork]
  by (simp add: mockQualities_def starvingBuffer_def)

text \<open>
  The definition of \<^verbatim>\<open>src/App.tsx\<close> clamps: it answers 0 on the empty ladder, it sees
  \<^verbatim>\<open>currentQuality\<close> only through its clamped value, it never throws, and on a
  non-empty ladder its answer is an index of the ladder.
\<close>

lemma selectOptimalQuality_empty: "selectOptimalQuality [] nc bh cq = Inr 0"
  by (simp add: selectOptimalQuality_def)

lemma selectOptimalQuality_clamped:
  "selectOptimalQuality qs nc bh cq
   = selectOptimalQuality qs nc bh (max 0 (min cq (int (length qs) - 1)))"
  by (simp add: selectOptimalQuality_def Let_def)

lemma selectOptimalQuality_valid_index:
  assumes "qs \<noteq> []"
  shows "\<exists>r. selectOptimalQuality qs nc bh cq = Inr r \<and> 0 \<le> r \<and> r < int (length qs)"
proof -
  define safe where "safe = max 0 (min cq (int (length qs) - 1))"
  let ?a = "bandwidth_net nc * (1 - packetLoss nc)"
  let ?b = "js_div (currentBuffer bh) (targetBuffer bh)"
  note unfold = selectOptimalQuality_unfold [OF assms safe_def, of nc bh]
  from assms have pos: "0 < int (length qs)" by simp
  then have safe_lt: "safe < int (length qs)" by (simp add: safe_def)
  show ?thesis
  proof (cases "isStarving bh \<and> safe > 0")
    case True
    then have "selectOptimalQuality qs nc bh cq = Inr (max 0 (safe - 1))"
      using unfold by simp
    moreover have "0 \<le> max 0 (safe - 1)" by simp
    moreover have "max 0 (safe - 1) < int (length qs)" using pos safe_lt by simp
    ultimately show ?thesis by blast
  next
    case False
    then have eq: "selectOptimalQuality qs nc bh cq
                 = selectOptimalQuality_loop qs ?a ?b safe (int (length qs) - 1)"
      using unfold by auto
    have "int (length qs) - 1 < int (length qs)" by simp
    from selectOptimalQuality_loop_range [OF this, of ?a ?b safe]
    obtain r where "selectOptimalQuality_loop qs ?a ?b safe (int (length qs) - 1) = Inr r"
      and "0 \<le> r" and "r \<le> max 0 (int (length qs) - 1)"
      by blast
    with eq pos show ?thesis by auto
  qed
qed

text \<open>
  C3. The selection clamps the current quality into the ladder before using it and
  returns 0 on the empty ladder. The definition in \<^verbatim>\<open>src/unnamed/part_000\<close> does
  neither: on the empty ladder with a starving buffer and current quality 5 it answers 4,
  and with the three-level ladder and current quality 10 it answers 9, where the clamped
  index 2 gives 1 in \<^verbatim>\<open>src/App.tsx\<close>.
\<close>

theorem C3_part_000_does_not_clamp:
  "selectOptimalQuality_part_000 [] poorNetwork starvingBuffer 5 = Inr 4
   \<and> selectOptimalQuality [] poorNetwork starvingBuffer 5 = Inr 0
   \<and> selectOptimalQuality_part_000 mockQualities poorNetwork starvingBuffer 10 = Inr 9
   \<and> selectOptimalQuality mockQualities poorNetwork starvingBuffer 10 = Inr 1"
  by (simp add: selectOptimalQuality_part_000_def selectOptimalQuality_def
      starvingBuffer_def mockQualities_def)

text \<open>
  C5. On a non-empty ladder the returned index is an index of the ladder. The definition
  in \<^verbatim>\<open>src/unnamed/part_000\<close> breaks this: with the three-level ladder, a starving
  buffer and current quality 7 it answers 6, which is not below the length 3.
\<close>

theorem C5_part_000_index_out_of_range:
  "selectOptimalQuality_part_000 mockQualities goodNetwork starvingBuffer 7 = Inr 6
   \<and> \<not> (6 < int (length mockQualities))"
  by (simp add: selectOptimalQuality_part_000_def starvingBuffer_def mockQualities_def)

section \<open>Properties of the segment loading\<close>

lemma attempts_made_append:
  "attempts_made (xs @ ys) = attempts_made xs + attempts_made ys"
  by (induction xs rule: attempts_made.induct) simp_all

lemma backoffs_append: "backoffs (xs @ ys) = backoffs xs @ backoffs ys"
  by (induction xs rule: backoffs.induct) simp_all

lemma loadSegment_try_fails:
  assumes "Math_random (draws w + 1) < 0.05"
  shows "loadSegment_try Math_random u nc w
         = (Inl (Error (''Network error loading '' @ u)),
            w\<lparr>trace := trace w @ [Delay (latency nc + Math_random (draws w) * 100)],
              draws := draws w + 2\<rparr>)"
  using assms by (simp add: loadSegment_try_def Let_def)

lemma loadSegment_try_cases:
  "(\<exists>m w'. loadSegment_try Math_random u nc w = (Inl (Error m), w'))
   \<or> (\<exists>blob w'. loadSegment_try Math_random u nc w
          = (Inr \<lparr>success = True, data = Some blob, error_lr = None\<rparr>, w'))"
  by (simp add: loadSegment_try_def Let_def)

lemma loadSegment_loop_all_fail:
  assumes "\<forall>k. Math_random (draws w + 2 * k + 1) < 0.05"
    and "0 \<le> attempt" and "attempt < retries" and "n = nat (retries - 1 - attempt)"
  shows "fst (loadSegment_loop Math_random u nc retries attempt w)
           = \<lparr>success = False, data = None, error_lr = Some (''Failed to load '' @ u @ '' after '' @ string_of_int retries @ '' attempts: ''
                               @ ''Network error loading '' @ u)\<rparr>
         \<and> attempts_made (trace (snd (loadSegment_loop Math_random u nc retries attempt w)))
           = attempts_made (trace w) + nat (retries - attempt)
         \<and> backoffs (trace (snd (loadSegment_loop Math_random u nc retries attempt w)))
           = backoffs (trace w) @ map (\<lambda>i. 2 ^ i * 1000) [nat attempt ..< nat retries - 1]"
  using assms
proof (induction n arbitrary: attempt w)
  case 0
  then have last: "attempt = retries - 1" by simp
  from "0.prems"(1) have "Math_random (draws w + 2 * 0 + 1) < 0.05" by blast
  then have f: "Math_random (draws w + 1) < 0.05" by simp
  define w' where "w' = w\<lparr>trace := trace w @ [Delay (latency nc + Math_random (draws w) * 100)],
              draws := draws w + 2\<rparr>"
  have tried: "loadSegment_try Math_random u nc w = (Inl (Error (''Network error loading '' @ u)), w')"
    unfolding w'_def by (rule loadSegment_try_fails [where Math_random = Math_random and w = w, OF f])
  have eq: "loadSegment_loop Math_random u nc retries (retries - 1) w
            = (\<lparr>success = False, data = None, error_lr = Some (''Failed to load '' @ u @ '' after '' @ string_of_int retries @ '' attempts: ''
                               @ ''Network error loading '' @ u)\<rparr>, w')"
    by (subst loadSegment_loop.simps) (simp add: tried)
  have tr: "attempts_made (trace w') = attempts_made (trace w) + 1"
    "backoffs (trace w') = backoffs (trace w)"
    by (simp_all add: w'_def attempts_made_append backoffs_append)
  have nat_eq: "nat (retries - (retries - 1)) = 1" by simp
  have upt: "[nat (retries - 1) ..< nat retries - 1] = []" by simp
  show ?case
    unfolding last eq fst_conv snd_conv tr nat_eq upt by simp
next
  case (Suc n)
  then have more: "attempt \<noteq> retries - 1" "attempt < retries" by simp_all
  from Suc.prems(1) have "Math_random (draws w + 2 * 0 + 1) < 0.05" by blast
  then have f: "Math_random (draws w + 1) < 0.05" by simp
  define w1 where "w1 = w\<lparr>trace := trace w @ [Delay (latency nc + Math_random (draws w) * 100)],
              draws := draws w + 2\<rparr>"
  define w' where "w' = w1\<lparr>trace := trace w1 @
                   [ConsoleWarn (''Segment load attempt '' @ string_of_int (attempt + 1)
                                 @ '' failed: '' @ (''Network error loading '' @ u) @ ''. Retrying...''),
                    Backoff (2 ^ nat attempt * 1000)]\<rparr>"
  have tried: "loadSegment_try Math_random u nc w = (Inl (Error (''Network error loading '' @ u)), w1)"
    unfolding w1_def by (rule loadSegment_try_fails [where Math_random = Math_random and w = w, OF f])
  have step: "loadSegment_loop Math_random u nc retries attempt w
            = loadSegment_loop Math_random u nc retries (attempt + 1) w'"
    using more
    by (subst loadSegment_loop.simps) (simp add: tried w'_def)
  have d: "draws w' = draws w + 2" by (simp add: w'_def w1_def)
  have allf: "\<forall>k. Math_random (draws w' + 2 * k + 1) < 0.05"
  proof
    fix k
    from Suc.prems(1) have "Math_random (draws w + 2 * (Suc k) + 1) < 0.05" by blast
    then show "Math_random (draws w' + 2 * k + 1) < 0.05" by (simp add: d)
  qed
  have n: "n = nat (retries - 1 - (attempt + 1))" using Suc.prems(4) by simp
  have lt: "attempt + 1 < retries" using Suc.prems(4) by simp
  have ge: "0 \<le> attempt + 1" using Suc.prems(2) by simp
  note IH = Suc.IH [OF allf ge lt n]
  have tr: "attempts_made (trace w') = attempts_made (trace w) + 1"
    "backoffs (trace w') = backoffs (trace w) @ [2 ^ nat attempt * 1000]"
    by (simp_all add: w'_def w1_def attempts_made_append backoffs_append)
  have nats: "nat (retries - (attempt + 1)) + 1 = nat (retries - attempt)"
    using lt by simp
  have sucn: "nat (attempt + 1) = Suc (nat attempt)" using Suc.prems(2) by arith
  have "nat attempt < nat retries - 1" using lt Suc.prems(2) by arith
  then have upt: "[nat attempt ..< nat retries - 1] = nat attempt # [nat (attempt + 1) ..< nat retries - 1]"
    using Suc.prems(2) by (simp only: upt_conv_Cons sucn)
  show ?case
    unfolding step upt using IH tr nats by simp
qed

lemma loadSegment_loop_no_attempt:
  "\<not> attempt < retries \<Longrightarrow>
   loadSegment_loop Math_random u nc retries attempt w
   = (\<lparr>success = False, data = None, error_lr = Some ''Unexpected error in retry loop''\<rparr>, w)"
  by (subst loadSegment_loop.simps) simp


lemma sum_list_backoffs:
  "sum_list (map (\<lambda>i. 2 ^ i * 1000) [0 ..< n]) = (1000::real) * (\<Sum>i<n. 2 ^ i)"
  by (induction n) (simp_all add: algebra_simps)

text \<open>
  C6. When the failure draw of every attempt is below 0.05, \<^verbatim>\<open>loadSegment\<close> makes exactly
  \<open>retries\<close> attempts and returns a failure; with at least one attempt its message is the
  "Failed to load" text that ends in the error of the last attempt. After each failed
  attempt but the last it waits \<open>2 ^ attempt * 1000\<close> milliseconds, so the backoffs are
  1000, 2000, ... and sum to 1000 times the sum of \<open>2 ^ i\<close> for \<open>i\<close> up to
  \<open>retries - 2\<close>. With \<open>retries\<close> below 1 no attempt is made and the message is the one
  after the loop.
\<close>

theorem C6_all_attempts_fail:
  assumes "\<forall>k. Math_random (2 * k + 1) < 0.05"
  shows "success (fst (loadSegment Math_random u nc retries initial_world)) = False
       \<and> data (fst (loadSegment Math_random u nc retries initial_world)) = None
       \<and> (1 \<le> retries \<longrightarrow>
            error_lr (fst (loadSegment Math_random u nc retries initial_world))
            = Some (''Failed to load '' @ u @ '' after '' @ string_of_int retries
                    @ '' attempts: '' @ ''Network error loading '' @ u))
       \<and> (retries < 1 \<longrightarrow>
            error_lr (fst (loadSegment Math_random u nc retries initial_world))
            = Some ''Unexpected error in retry loop'')
       \<and> attempts_made (trace (snd (loadSegment Math_random u nc retries initial_world)))
            = nat retries
       \<and> backoffs (trace (snd (loadSegment Math_random u nc retries initial_world)))
            = map (\<lambda>i. 2 ^ i * 1000) [0 ..< nat retries - 1]
       \<and> sum_list (backoffs (trace (snd (loadSegment Math_random u nc retries initial_world))))
            = 1000 * (\<Sum>i<nat retries - 1. 2 ^ i)"
proof (cases "1 \<le> retries")
  case True
  have allf: "\<forall>k. Math_random (draws initial_world + 2 * k + 1) < 0.05"
    using assms by (simp add: initial_world_def)
  have lt: "(0::int) < retries" using True by simp
  note L = loadSegment_loop_all_fail [OF allf order_refl lt refl, of u nc]
  have tr0: "attempts_made (trace initial_world) = 0" "backoffs (trace initial_world) = []"
    by (simp_all add: initial_world_def)
  from L True show ?thesis
    unfolding loadSegment_def
    by (simp add: tr0 sum_list_backoffs)
next
  case False
  then have "\<not> 0 < retries" by simp
  from loadSegment_loop_no_attempt [OF this] False show ?thesis
    by (simp add: loadSegment_def initial_world_def)
qed

theorem C6_all_attempts_fail_witness:
  "(\<forall>k. (\<lambda>k::nat. 0::real) (2 * k + 1) < 0.05)
   \<and> success (fst (loadSegment (\<lambda>k. 0) ''test_segment.ts'' goodNetwork 3 initial_world)) = False
   \<and> error_lr (fst (loadSegment (\<lambda>k. 0) ''test_segment.ts'' goodNetwork 3 initial_world))
       = Some ''Failed to load test_segment.ts after 3 attempts: Network error loading test_segment.ts''
   \<and> attempts_made (trace (snd (loadSegment (\<lambda>k. 0) ''test_segment.ts'' goodNetwork 3 initial_world))) = 3
   \<and> backoffs (trace (snd (loadSegment (\<lambda>k. 0) ''test_segment.ts'' goodNetwork 3 initial_world)))
       = [1000, 2000]"
  using C6_all_attempts_fail [of "\<lambda>k. 0" "''test_segment.ts''" goodNetwork 3]
  by (simp add: string_of_int_def string_of_nat.simps upt_rec)

text \<open>The loop always ends in one of the two shapes of result.\<close>

lemma loadSegment_loop_structured:
  assumes "n = nat (retries - attempt)"
  shows "(\<exists>blob. fst (loadSegment_loop Math_random u nc retries attempt w)
                 = \<lparr>success = True, data = Some blob, error_lr = None\<rparr>)
       \<or> (\<exists>msg. fst (loadSegment_loop Math_random u nc retries attempt w)
                 = \<lparr>success = False, data = None, error_lr = Some msg\<rparr>)"
  using assms
proof (induction n arbitrary: attempt w)
  case 0
  then have "\<not> attempt < retries" by simp
  from loadSegment_loop_no_attempt [OF this] show ?case by simp
next
  case (Suc n)
  then have lt: "attempt < retries" by simp
  from loadSegment_try_cases [of Math_random u nc w] show ?case
  proof (elim disjE exE)
    fix m w'
    assume thrown: "loadSegment_try Math_random u nc w = (Inl (Error m), w')"
    show ?thesis
    proof (cases "attempt = retries - 1")
      case True
      with lt thrown show ?thesis
        by (subst (1 2) loadSegment_loop.simps) simp
    next
      case False
      define w2 where "w2 = w'\<lparr>trace := trace w' @
                   [ConsoleWarn (''Segment load attempt '' @ string_of_int (attempt + 1)
                                 @ '' failed: '' @ m @ ''. Retrying...''),
                    Backoff (2 ^ nat attempt * 1000)]\<rparr>"
      have step: "loadSegment_loop Math_random u nc retries attempt w
                = loadSegment_loop Math_random u nc retries (attempt + 1) w2"
        using lt False thrown
        by (subst loadSegment_loop.simps) (simp add: w2_def)
      have "n = nat (retries - (attempt + 1))" using Suc.prems by simp
      from Suc.IH [OF this, of w2] show ?thesis
        unfolding step .
    qed
  next
    fix blob w'
    assume "loadSegment_try Math_random u nc w
            = (Inr \<lparr>success = True, data = Some blob, error_lr = None\<rparr>, w')"
    with lt show ?thesis
      by (subst (1 2) loadSegment_loop.simps) simp
  qed
qed

text \<open>
  C10. For every segment URL, network condition, retry count, starting world and sequence
  of random draws, \<^verbatim>\<open>loadSegment\<close> returns, and what it returns is either a success with
  a blob and no error or a failure with a message and no data. The error thrown inside
  the \<^verbatim>\<open>try\<close> block is a branch of \<^const>\<open>loadSegment_loop\<close>, which handles it.
\<close>

theorem C10_loadSegment_structured_result:
  "(\<exists>blob. fst (loadSegment Math_random u nc retries w)
            = \<lparr>success = True, data = Some blob, error_lr = None\<rparr>)
   \<or> (\<exists>msg. fst (loadSegment Math_random u nc retries w)
            = \<lparr>success = False, data = None, error_lr = Some msg\<rparr>)"
  unfolding loadSegment_def by (rule loadSegment_loop_structured [OF refl])


theorem C10_loadSegment_structured_result_witness:
  "fst (loadSegment (\<lambda>k. 1 / 2) ''test_segment.ts'' goodNetwork 3 initial_world)
     = \<lparr>success = True,
        data = Some \<lparr>blobParts = [''video_segment_test_segment.ts''], type_blob = ''video/mp2t''\<rparr>,
        error_lr = None\<rparr>
   \<and> fst (loadSegment (\<lambda>k. 0) ''test_segment.ts'' goodNetwork 1 initial_world)
     = \<lparr>success = False, data = None,
        error_lr = Some ''Failed to load test_segment.ts after 1 attempts: Network error loading test_segment.ts''\<rparr>"
  using C10_loadSegment_structured_result [of "\<lambda>k. 1 / 2" "''test_segment.ts''" goodNetwork 3 initial_world]
  by (simp add: loadSegment_def loadSegment_loop.simps loadSegment_try_def Let_def
      string_of_int_def string_of_nat.simps)

section \<open>Properties of the event log\<close>

lemma length_slice_last: "length (slice_last n xs) \<le> n"
  by (simp add: slice_last_def)

lemma slice_last_snoc:
  "slice_last n (slice_last (Suc n) xs) @ [x] = slice_last (Suc n) (xs @ [x])"
proof -
  have "length xs - (length xs - Suc n + n) + (length xs - Suc n) = length xs - n"
    by arith
  then show ?thesis by (simp add: slice_last_def)
qed

lemma logs_logEvent: "logs (logEvent p c) = slice_last 49 (logs p) @ [logEntry_of c]"
  by (simp add: logEvent_def Let_def)

lemma bufferEvents_logEvent:
  "bufferEvents (metrics (logEvent p c))
   = (if is_buffer_event c then slice_last 19 (bufferEvents (metrics p)) @ [bufferEvent_of c]
      else bufferEvents (metrics p))"
  by (simp add: logEvent_def Let_def is_buffer_event_def)

lemma logEvents_snoc: "logEvents p (cs @ [c]) = logEvent (logEvents p cs) c"
  by (simp add: logEvents_def)

lemma logs_logEvents:
  "logs (logEvents initial_player cs) = slice_last 50 (map logEntry_of cs)"
proof (induction cs rule: rev_induct)
  case Nil
  show ?case by (simp add: logEvents_def initial_player_def slice_last_def)
next
  case (snoc c cs)
  have "logs (logEvents initial_player (cs @ [c]))
        = slice_last 49 (slice_last (Suc 49) (map logEntry_of cs)) @ [logEntry_of c]"
    by (simp add: logEvents_snoc logs_logEvent snoc.IH)
  also have "\<dots> = slice_last (Suc 49) (map logEntry_of cs @ [logEntry_of c])"
    by (rule slice_last_snoc)
  finally show ?case by simp
qed

lemma bufferEvents_logEvents:
  "bufferEvents (metrics (logEvents initial_player cs))
   = slice_last 20 (map bufferEvent_of (filter is_buffer_event cs))"
proof (induction cs rule: rev_induct)
  case Nil
  show ?case by (simp add: logEvents_def initial_player_def slice_last_def)
next
  case (snoc c cs)
  show ?case
  proof (cases "is_buffer_event c")
    case False
    then show ?thesis
      by (simp add: logEvents_snoc bufferEvents_logEvent snoc.IH)
  next
    case True
    let ?h = "map bufferEvent_of (filter is_buffer_event cs)"
    have "bufferEvents (metrics (logEvents initial_player (cs @ [c])))
          = slice_last 19 (slice_last (Suc 19) ?h) @ [bufferEvent_of c]"
      using True by (simp add: logEvents_snoc bufferEvents_logEvent snoc.IH)
    also have "\<dots> = slice_last (Suc 19) (?h @ [bufferEvent_of c])"
      by (rule slice_last_snoc)
    finally show ?thesis using True by simp
  qed
qed

text \<open>
  C7. However many events are recorded, the log holds at most 50 entries and the list of
  buffer events, which only warnings and errors reach, at most 20. Each list is the
  longest suffix within its capacity of what was appended, in the order it was appended:
  the oldest entries are the ones dropped.
\<close>

theorem C7_rings_bounded_fifo:
  "length (logs (logEvents initial_player cs)) \<le> 50
   \<and> length (bufferEvents (metrics (logEvents initial_player cs))) \<le> 20
   \<and> logs (logEvents initial_player cs)
       = drop (length cs - 50) (map logEntry_of cs)
   \<and> bufferEvents (metrics (logEvents initial_player cs))
       = drop (length (filter is_buffer_event cs) - 20)
           (map bufferEvent_of (filter is_buffer_event cs))"
proof -
  have "length (logs (logEvents initial_player cs)) \<le> 50"
    by (simp only: logs_logEvents length_slice_last)
  moreover have "length (bufferEvents (metrics (logEvents initial_player cs))) \<le> 20"
    by (simp only: bufferEvents_logEvents length_slice_last)
  moreover have "logs (logEvents initial_player cs) = drop (length cs - 50) (map logEntry_of cs)"
    by (simp add: logs_logEvents slice_last_def)
  moreover have "bufferEvents (metrics (logEvents initial_player cs))
       = drop (length (filter is_buffer_event cs) - 20)
           (map bufferEvent_of (filter is_buffer_event cs))"
    by (simp add: bufferEvents_logEvents slice_last_def)
  ultimately show ?thesis by blast
qed

section \<open>Properties of the manifest parsing\<close>

text \<open>The manifest of the repository parses to the four levels that
  \<^verbatim>\<open>testHLSParsing\<close> expects, 800000 first and 5000000 last.\<close>

lemma parseHLSManifest_MOCK_HLS_MANIFEST:
  "(case parseHLSManifest MOCK_HLS_MANIFEST of
      Inl e \<Rightarrow> False
    | Inr qualities \<Rightarrow>
        length qualities = 4
        \<and> map bandwidth qualities = [800000, 1400000, 2800000, 5000000]
        \<and> map id_ql qualities = [''quality_800000_640x360'', ''quality_1400000_854x480'',
             ''quality_2800000_1280x720'', ''quality_5000000_1920x1080''])"
  by code_simp

lemma parseHLSManifest_step_invalid:
  "\<not> valid_entry lines i \<Longrightarrow> parseHLSManifest_step lines i = Inr None"
  by (auto simp: valid_entry_def parseHLSManifest_step_def split: option.splits)

lemma parseHLSManifest_step_throws:
  "parseHLSManifest_step lines i = Inl e \<Longrightarrow>
   valid_entry lines i \<and> parseSegmentPlaylist (lines ! (i + 1)) = Inl e"
  by (auto simp: valid_entry_def parseHLSManifest_step_def Let_def
      split: option.splits if_splits sum.splits)

lemma parseHLSManifest_loop_no_valid:
  assumes "\<forall>j. i \<le> j \<and> j < length lines \<longrightarrow> \<not> valid_entry lines j"
    and "n = length lines - i"
  shows "parseHLSManifest_loop lines i acc = Inr acc"
  using assms
proof (induction n arbitrary: i)
  case 0
  then have "\<not> i < length lines" by simp
  then show ?case by (subst parseHLSManifest_loop.simps) simp
next
  case (Suc n)
  then have lt: "i < length lines" by simp
  with Suc.prems(1) have "\<not> valid_entry lines i" by simp
  then have skip: "parseHLSManifest_step lines i = Inr None"
    by (rule parseHLSManifest_step_invalid)
  have step: "parseHLSManifest_loop lines i acc = parseHLSManifest_loop lines (i + 1) acc"
    using lt by (subst parseHLSManifest_loop.simps) (simp add: skip)
  have "\<forall>j. i + 1 \<le> j \<and> j < length lines \<longrightarrow> \<not> valid_entry lines j"
    using Suc.prems(1) by simp
  moreover have "n = length lines - (i + 1)" using Suc.prems(2) by simp
  ultimately show ?case unfolding step by (rule Suc.IH)
qed

lemma parseHLSManifest_step_valid:
  "valid_entry lines i \<Longrightarrow> parseSegmentPlaylist (lines ! (i + 1)) = Inr segs \<Longrightarrow>
   parseHLSManifest_step lines i = Inr (Some (quality_at lines i))"
  by (auto simp: valid_entry_def parseHLSManifest_step_def quality_at_def Let_def)

lemma parseHLSManifest_loop_resolves:
  assumes "\<forall>j. i \<le> j \<and> j < length lines \<and> valid_entry lines j \<longrightarrow>
             (\<exists>segs. parseSegmentPlaylist (lines ! (j + 1)) = Inr segs)"
    and "n = length lines - i"
  shows "parseHLSManifest_loop lines i acc
         = Inr (acc @ map (quality_at lines) (filter (valid_entry lines) [i ..< length lines]))"
  using assms
proof (induction n arbitrary: i acc)
  case 0
  then have "\<not> i < length lines" by simp
  then show ?case by (subst parseHLSManifest_loop.simps) simp
next
  case (Suc n)
  then have lt: "i < length lines" by simp
  then have upt: "[i ..< length lines] = i # [i + 1 ..< length lines]"
    by (simp add: upt_conv_Cons)
  have rest: "\<forall>j. i + 1 \<le> j \<and> j < length lines \<and> valid_entry lines j \<longrightarrow>
             (\<exists>segs. parseSegmentPlaylist (lines ! (j + 1)) = Inr segs)"
    using Suc.prems(1) by simp
  have n: "n = length lines - (i + 1)" using Suc.prems(2) by simp
  show ?case
  proof (cases "valid_entry lines i")
    case True
    with Suc.prems(1) lt obtain segs
      where "parseSegmentPlaylist (lines ! (i + 1)) = Inr segs" by auto
    with True have pushed: "parseHLSManifest_step lines i = Inr (Some (quality_at lines i))"
      by (rule parseHLSManifest_step_valid)
    have "parseHLSManifest_loop lines i acc
          = parseHLSManifest_loop lines (i + 1) (acc @ [quality_at lines i])"
      using lt by (subst parseHLSManifest_loop.simps) (simp add: pushed)
    also have "\<dots> = Inr ((acc @ [quality_at lines i])
                 @ map (quality_at lines) (filter (valid_entry lines) [i + 1 ..< length lines]))"
      by (rule Suc.IH [OF rest n])
    finally show ?thesis unfolding upt using True by simp
  next
    case False
    then have skip: "parseHLSManifest_step lines i = Inr None"
      by (rule parseHLSManifest_step_invalid)
    have "parseHLSManifest_loop lines i acc = parseHLSManifest_loop lines (i + 1) acc"
      using lt by (subst parseHLSManifest_loop.simps) (simp add: skip)
    also have "\<dots> = Inr (acc
                 @ map (quality_at lines) (filter (valid_entry lines) [i + 1 ..< length lines]))"
      by (rule Suc.IH [OF rest n])
    finally show ?thesis unfolding upt using False by simp
  qed
qed

lemma parseHLSManifest_loop_throws:
  assumes "parseHLSManifest_loop lines i acc = Inl e" and "n = length lines - i"
  shows "\<exists>j. i \<le> j \<and> j < length lines \<and> valid_entry lines j
             \<and> parseSegmentPlaylist (lines ! (j + 1)) = Inl e"
  using assms
proof (induction n arbitrary: i acc)
  case 0
  then have "\<not> i < length lines" by simp
  then have "parseHLSManifest_loop lines i acc = Inr acc"
    by (subst parseHLSManifest_loop.simps) simp
  with "0.prems"(1) show ?case by simp
next
  case (Suc n)
  then have lt: "i < length lines" by simp
  have n: "n = length lines - (i + 1)" using Suc.prems(2) by simp
  show ?case
  proof (cases "parseHLSManifest_step lines i")
    case (Inl e')
    then have "parseHLSManifest_loop lines i acc = Inl e'"
      using lt by (subst parseHLSManifest_loop.simps) simp
    with Suc.prems(1) have "e' = e" by simp
    with Inl have "parseHLSManifest_step lines i = Inl e" by simp
    from parseHLSManifest_step_throws [OF this] lt show ?thesis by auto
  next
    case (Inr r)
    have "\<exists>acc'. parseHLSManifest_loop lines i acc = parseHLSManifest_loop lines (i + 1) acc'"
    proof (cases r)
      case None
      with Inr have "parseHLSManifest_loop lines i acc = parseHLSManifest_loop lines (i + 1) acc"
        using lt by (subst parseHLSManifest_loop.simps) simp
      then show ?thesis by blast
    next
      case (Some q)
      with Inr have "parseHLSManifest_loop lines i acc
                   = parseHLSManifest_loop lines (i + 1) (acc @ [q])"
        using lt by (subst parseHLSManifest_loop.simps) simp
      then show ?thesis by blast
    qed
    then obtain acc' where "parseHLSManifest_loop lines (i + 1) acc' = Inl e"
      using Suc.prems(1) by auto
    from Suc.IH [OF this n] obtain j where "i + 1 \<le> j" "j < length lines"
      "valid_entry lines j" "parseSegmentPlaylist (lines ! (j + 1)) = Inl e" by blast
    then show ?thesis by (intro exI [of _ j]) simp
  qed
qed

text \<open>
  C4, as the code has it. \<^verbatim>\<open>parseHLSManifest\<close> has no parse error. A stream-info line
  without \<^verbatim>\<open>BANDWIDTH\<close>, without \<^verbatim>\<open>RESOLUTION\<close> or without a line after it is
  skipped, in any manifest: when the playlist of every valid entry can be read, the
  function resolves to the levels of the valid entries alone, sorted by bandwidth. It
  rejects only with the error \<^verbatim>\<open>parseSegmentPlaylist\<close> throws on the playlist of a valid
  entry. With no valid entry it resolves to the empty ladder.
\<close>

theorem C4_skips_malformed_rejects_only_on_playlist:
  assumes "lines = nonblank_lines manifestContent"
  shows "((\<forall>i<length lines. valid_entry lines i \<longrightarrow>
              (\<exists>segs. parseSegmentPlaylist (lines ! (i + 1)) = Inr segs))
          \<longrightarrow> parseHLSManifest manifestContent
              = Inr (sort_key bandwidth
                       (map (quality_at lines) (filter (valid_entry lines) [0 ..< length lines]))))
       \<and> (\<forall>e. parseHLSManifest manifestContent = Inl e \<longrightarrow>
              (\<exists>j<length lines. valid_entry lines j
                   \<and> parseSegmentPlaylist (lines ! (j + 1)) = Inl e))
       \<and> ((\<forall>i<length lines. \<not> valid_entry lines i)
          \<longrightarrow> parseHLSManifest manifestContent = Inr [])"
proof (intro conjI impI allI)
  assume "\<forall>i<length lines. valid_entry lines i \<longrightarrow>
            (\<exists>segs. parseSegmentPlaylist (lines ! (i + 1)) = Inr segs)"
  then have "\<forall>j. 0 \<le> j \<and> j < length lines \<and> valid_entry lines j \<longrightarrow>
             (\<exists>segs. parseSegmentPlaylist (lines ! (j + 1)) = Inr segs)"
    by simp
  from parseHLSManifest_loop_resolves [OF this refl, of "[]"]
  show "parseHLSManifest manifestContent
        = Inr (sort_key bandwidth
                 (map (quality_at lines) (filter (valid_entry lines) [0 ..< length lines])))"
    by (simp add: parseHLSManifest_def assms [symmetric])
next
  fix e
  assume "parseHLSManifest manifestContent = Inl e"
  then have "parseHLSManifest_loop lines 0 [] = Inl e"
    by (auto simp: parseHLSManifest_def assms split: sum.splits)
  from parseHLSManifest_loop_throws [OF this refl]
  show "\<exists>j<length lines. valid_entry lines j
          \<and> parseSegmentPlaylist (lines ! (j + 1)) = Inl e"
    by blast
next
  assume "\<forall>i<length lines. \<not> valid_entry lines i"
  then have "parseHLSManifest_loop lines 0 [] = Inr []"
    by (intro parseHLSManifest_loop_no_valid [OF _ refl]) simp
  then show "parseHLSManifest manifestContent = Inr []"
    by (simp add: parseHLSManifest_def assms [symmetric])
qed


text \<open>
  C4, as stated, fails: a manifest whose only stream-info line has no \<^verbatim>\<open>RESOLUTION\<close>
  has no valid entry, and parsing it succeeds with the empty ladder.
\<close>

theorem C4_empty_ladder_counterexample:
  "parseHLSManifest
     (template [''#EXTM3U'', ''#EXT-X-STREAM-INF:BANDWIDTH=800000'', ''stream_360p.m3u8''])
   = Inr []"
  by code_simp

theorem C4_skips_malformed_rejects_only_on_playlist_witness:
  "parseHLSManifest (template [''#EXTM3U'',
       ''#EXT-X-STREAM-INF:BANDWIDTH=800000'', ''stream_360p.m3u8'',
       ''#EXT-X-STREAM-INF:BANDWIDTH=1400000,RESOLUTION=854x480'', ''stream_480p.m3u8''])
   = Inr [\<lparr>id_ql = ''quality_1400000_854x480'', bandwidth = 1400000,
           resolution = ''854x480'', url = ''stream_480p.m3u8'',
           segments = [''segment_480p_001.ts'', ''segment_480p_002.ts'', ''segment_480p_003.ts'']\<rparr>]
   \<and> (\<exists>j. valid_entry [''#EXT-X-STREAM-INF:BANDWIDTH=800000,RESOLUTION=640x360'', ''missing.m3u8''] j
          \<and> parseSegmentPlaylist
               ([''#EXT-X-STREAM-INF:BANDWIDTH=800000,RESOLUTION=640x360'', ''missing.m3u8''] ! (j + 1))
             = Inl (Error ''Playlist not found: missing.m3u8''))
   \<and> parseHLSManifest (template [''#EXTM3U'',
        ''#EXT-X-STREAM-INF:RESOLUTION=640x360'', ''stream_360p.m3u8'']) = Inr []"
proof (intro conjI)
  let ?m = "template [''#EXTM3U'',
       ''#EXT-X-STREAM-INF:BANDWIDTH=800000'', ''stream_360p.m3u8'',
       ''#EXT-X-STREAM-INF:BANDWIDTH=1400000,RESOLUTION=854x480'', ''stream_480p.m3u8'']"
  let ?L = "[''#EXTM3U'',
       ''#EXT-X-STREAM-INF:BANDWIDTH=800000'', ''stream_360p.m3u8'',
       ''#EXT-X-STREAM-INF:BANDWIDTH=1400000,RESOLUTION=854x480'', ''stream_480p.m3u8'']"
  have lines: "?L = nonblank_lines ?m" by code_simp
  have v0: "\<not> valid_entry ?L 0" by code_simp
  have v1: "\<not> valid_entry ?L 1" by code_simp
  have v2: "\<not> valid_entry ?L 2" by code_simp
  have v4: "\<not> valid_entry ?L 4" by code_simp
  have p3: "parseSegmentPlaylist (?L ! (3 + 1))
            = Inr [''segment_480p_001.ts'', ''segment_480p_002.ts'', ''segment_480p_003.ts'']"
    by code_simp
  have h: "\<forall>i<length ?L. valid_entry ?L i \<longrightarrow>
             (\<exists>segs. parseSegmentPlaylist (?L ! (i + 1)) = Inr segs)"
  proof (intro allI impI)
    fix i assume "i < length ?L" and v: "valid_entry ?L i"
    then have "i = 0 \<or> i = 1 \<or> i = 2 \<or> i = 3 \<or> i = 4" by simp arith
    with v v0 v1 v2 v4 have "i = 3" by blast
    with p3 show "\<exists>segs. parseSegmentPlaylist (?L ! (i + 1)) = Inr segs" by blast
  qed
  have ladder: "sort_key bandwidth
                  (map (quality_at ?L) (filter (valid_entry ?L) [0 ..< length ?L]))
        = [\<lparr>id_ql = ''quality_1400000_854x480'', bandwidth = 1400000,
           resolution = ''854x480'', url = ''stream_480p.m3u8'',
           segments = [''segment_480p_001.ts'', ''segment_480p_002.ts'', ''segment_480p_003.ts'']\<rparr>]"
    by code_simp
  from C4_skips_malformed_rejects_only_on_playlist [OF lines] h
  have "parseHLSManifest ?m
        = Inr (sort_key bandwidth
                 (map (quality_at ?L) (filter (valid_entry ?L) [0 ..< length ?L])))"
    by blast
  then show "parseHLSManifest ?m
   = Inr [\<lparr>id_ql = ''quality_1400000_854x480'', bandwidth = 1400000,
           resolution = ''854x480'', url = ''stream_480p.m3u8'',
           segments = [''segment_480p_001.ts'', ''segment_480p_002.ts'', ''segment_480p_003.ts'']\<rparr>]"
    by (simp only: ladder)
next
  let ?m = "template [''#EXT-X-STREAM-INF:BANDWIDTH=800000,RESOLUTION=640x360'', ''missing.m3u8'']"
  let ?L = "[''#EXT-X-STREAM-INF:BANDWIDTH=800000,RESOLUTION=640x360'', ''missing.m3u8'']"
  have lines: "?L = nonblank_lines ?m" by code_simp
  have rejected: "parseHLSManifest ?m = Inl (Error ''Playlist not found: missing.m3u8'')"
    by code_simp
  from C4_skips_malformed_rejects_only_on_playlist [OF lines] rejected
  show "\<exists>j. valid_entry ?L j
          \<and> parseSegmentPlaylist (?L ! (j + 1)) = Inl (Error ''Playlist not found: missing.m3u8'')"
    by blast
next
  let ?m = "template [''#EXTM3U'', ''#EXT-X-STREAM-INF:RESOLUTION=640x360'', ''stream_360p.m3u8'']"
  let ?L = "[''#EXTM3U'', ''#EXT-X-STREAM-INF:RESOLUTION=640x360'', ''stream_360p.m3u8'']"
  have lines: "?L = nonblank_lines ?m" by code_simp
  have v0: "\<not> valid_entry ?L 0" by code_simp
  have v1: "\<not> valid_entry ?L 1" by code_simp
  have v2: "\<not> valid_entry ?L 2" by code_simp
  have h: "\<forall>i<length ?L. \<not> valid_entry ?L i"
  proof (intro allI impI)
    fix i assume "i < length ?L"
    then have "i = 0 \<or> i = 1 \<or> i = 2" by simp arith
    with v0 v1 v2 show "\<not> valid_entry ?L i" by blast
  qed
  from C4_skips_malformed_rejects_only_on_playlist [OF lines] h
  show "parseHLSManifest ?m = Inr []" by blast
qed

text \<open>
  C8. Whenever \<^verbatim>\<open>parseHLSManifest\<close> resolves, the ladder it gives is in ascending order
  of bandwidth.
\<close>

theorem C8_sorted_by_bandwidth:
  assumes "parseHLSManifest manifestContent = Inr qualityLevels"
  shows "sorted (map bandwidth qualityLevels)"
  using assms
  by (auto simp: parseHLSManifest_def split: sum.splits)

theorem C8_sorted_by_bandwidth_witness:
  "parseHLSManifest (template [''#EXTM3U'',
       ''#EXT-X-STREAM-INF:BANDWIDTH=1400000,RESOLUTION=854x480'', ''stream_480p.m3u8'',
       ''#EXT-X-STREAM-INF:BANDWIDTH=800000,RESOLUTION=640x360'', ''stream_360p.m3u8''])
   = Inr [\<lparr>id_ql = ''quality_800000_640x360'', bandwidth = 800000,
           resolution = ''640x360'', url = ''stream_360p.m3u8'',
           segments = [''segment_360p_001.ts'', ''segment_360p_002.ts'', ''segment_360p_003.ts'']\<rparr>,
          \<lparr>id_ql = ''quality_1400000_854x480'', bandwidth = 1400000,
           resolution = ''854x480'', url = ''stream_480p.m3u8'',
           segments = [''segment_480p_001.ts'', ''segment_480p_002.ts'', ''segment_480p_003.ts'']\<rparr>]
   \<and> sorted (map bandwidth
        [\<lparr>id_ql = ''quality_800000_640x360'', bandwidth = 800000,
           resolution = ''640x360'', url = ''stream_360p.m3u8'',
           segments = [''segment_360p_001.ts'', ''segment_360p_002.ts'', ''segment_360p_003.ts'']\<rparr>,
          \<lparr>id_ql = ''quality_1400000_854x480'', bandwidth = 1400000,
           resolution = ''854x480'', url = ''stream_480p.m3u8'',
           segments = [''segment_480p_001.ts'', ''segment_480p_002.ts'', ''segment_480p_003.ts'']\<rparr>])"
proof -
  let ?m = "template [''#EXTM3U'',
       ''#EXT-X-STREAM-INF:BANDWIDTH=1400000,RESOLUTION=854x480'', ''stream_480p.m3u8'',
       ''#EXT-X-STREAM-INF:BANDWIDTH=800000,RESOLUTION=640x360'', ''stream_360p.m3u8'']"
  let ?qs = "[\<lparr>id_ql = ''quality_800000_640x360'', bandwidth = 800000,
           resolution = ''640x360'', url = ''stream_360p.m3u8'',
           segments = [''segment_360p_001.ts'', ''segment_360p_002.ts'', ''segment_360p_003.ts'']\<rparr>,
          \<lparr>id_ql = ''quality_1400000_854x480'', bandwidth = 1400000,
           resolution = ''854x480'', url = ''stream_480p.m3u8'',
           segments = [''segment_480p_001.ts'', ''segment_480p_002.ts'', ''segment_480p_003.ts'']\<rparr>]"
  have p: "parseHLSManifest ?m = Inr ?qs" by code_simp
  from p C8_sorted_by_bandwidth [OF p] show ?thesis by blast
qed

text \<open>Every id of a parsed ladder is built from the digits of the entry's
  \<^verbatim>\<open>BANDWIDTH\<close> and from its resolution, so parsing a manifest again gives the same ids.\<close>

lemma parseHLSManifest_step_id:
  "parseHLSManifest_step lines i = Inr (Some q) \<Longrightarrow>
   \<exists>b. id_ql q = ''quality_'' @ b @ ''_'' @ resolution q
       \<and> bandwidth q = real_of_int (parseInt b)"
  by (auto simp: parseHLSManifest_step_def Let_def
      split: option.splits if_splits sum.splits)

lemma parseHLSManifest_loop_id:
  assumes "parseHLSManifest_loop lines i acc = Inr qs"
    and "\<forall>q\<in>set acc. \<exists>b. id_ql q = ''quality_'' @ b @ ''_'' @ resolution q
                          \<and> bandwidth q = real_of_int (parseInt b)"
    and "n = length lines - i"
  shows "\<forall>q\<in>set qs. \<exists>b. id_ql q = ''quality_'' @ b @ ''_'' @ resolution q
                        \<and> bandwidth q = real_of_int (parseInt b)"
  using assms
proof (induction n arbitrary: i acc)
  case 0
  then have "\<not> i < length lines" by simp
  then have "parseHLSManifest_loop lines i acc = Inr acc"
    by (subst parseHLSManifest_loop.simps) simp
  with "0.prems"(1,2) show ?case by simp
next
  case (Suc n)
  then have lt: "i < length lines" by simp
  have n: "n = length lines - (i + 1)" using Suc.prems(3) by simp
  show ?case
  proof (cases "parseHLSManifest_step lines i")
    case (Inl e)
    then have "parseHLSManifest_loop lines i acc = Inl e"
      using lt by (subst parseHLSManifest_loop.simps) simp
    with Suc.prems(1) show ?thesis by simp
  next
    case (Inr r)
    show ?thesis
    proof (cases r)
      case None
      with Inr have "parseHLSManifest_loop lines i acc
                   = parseHLSManifest_loop lines (i + 1) acc"
        using lt by (subst parseHLSManifest_loop.simps) simp
      with Suc.prems(1) have "parseHLSManifest_loop lines (i + 1) acc = Inr qs" by simp
      from Suc.IH [OF this Suc.prems(2) n] show ?thesis .
    next
      case (Some q)
      with Inr have "parseHLSManifest_loop lines i acc
                   = parseHLSManifest_loop lines (i + 1) (acc @ [q])"
        using lt by (subst parseHLSManifest_loop.simps) simp
      with Suc.prems(1) have run: "parseHLSManifest_loop lines (i + 1) (acc @ [q]) = Inr qs"
        by simp
      from Inr Some have "parseHLSManifest_step lines i = Inr (Some q)" by simp
      from parseHLSManifest_step_id [OF this] Suc.prems(2)
      have "\<forall>q'\<in>set (acc @ [q]). \<exists>b. id_ql q' = ''quality_'' @ b @ ''_'' @ resolution q'
                          \<and> bandwidth q' = real_of_int (parseInt b)"
        by auto
      from Suc.IH [OF run this n] show ?thesis .
    qed
  qed
qed

lemma parseHLSManifest_id_derived:
  assumes "parseHLSManifest manifestContent = Inr qualityLevels"
    and "q \<in> set qualityLevels"
  shows "\<exists>b. id_ql q = ''quality_'' @ b @ ''_'' @ resolution q
           \<and> bandwidth q = real_of_int (parseInt b)"
proof -
  from assms(1) obtain qs
    where run: "parseHLSManifest_loop (nonblank_lines manifestContent) 0 [] = Inr qs"
      and sorted: "qualityLevels = sort_key bandwidth qs"
    by (auto simp: parseHLSManifest_def split: sum.splits)
  from parseHLSManifest_loop_id [OF run _ refl]
  have "\<forall>q\<in>set qs. \<exists>b. id_ql q = ''quality_'' @ b @ ''_'' @ resolution q
                       \<and> bandwidth q = real_of_int (parseInt b)"
    by simp
  with assms(2) sorted show ?thesis by simp
qed

text \<open>
  C9. The ids of a parsed ladder are pairwise distinct. They are not when two entries
  carry the same \<^verbatim>\<open>BANDWIDTH\<close> and \<^verbatim>\<open>RESOLUTION\<close>: both get the id
  \<^verbatim>\<open>quality_800000_640x360\<close>.
\<close>

theorem C9_duplicate_entries_share_id:
  "parseHLSManifest (template [''#EXTM3U'',
       ''#EXT-X-STREAM-INF:BANDWIDTH=800000,RESOLUTION=640x360'', ''stream_360p.m3u8'',
       ''#EXT-X-STREAM-INF:BANDWIDTH=800000,RESOLUTION=640x360'', ''stream_480p.m3u8''])
   = Inr [\<lparr>id_ql = ''quality_800000_640x360'', bandwidth = 800000,
           resolution = ''640x360'', url = ''stream_360p.m3u8'',
           segments = [''segment_360p_001.ts'', ''segment_360p_002.ts'', ''segment_360p_003.ts'']\<rparr>,
          \<lparr>id_ql = ''quality_800000_640x360'', bandwidth = 800000,
           resolution = ''640x360'', url = ''stream_480p.m3u8'',
           segments = [''segment_480p_001.ts'', ''segment_480p_002.ts'', ''segment_480p_003.ts'']\<rparr>]"
  by code_simp

end
